theory Spec2Isabelle
  imports Complex_Main "HOL-Library.Char_ord" "HOL-Library.List_Lexorder"
    "HOL-Library.Product_Lexorder"
begin

section \<open>Data model\<close>

text \<open>
  The access log is a table with the columns \<^verbatim>\<open>filename\<close>, \<^verbatim>\<open>node_id\<close>, \<^verbatim>\<open>timestamp\<close> and
  \<^verbatim>\<open>current_replication_factor\<close>; a row is an \<open>access_event\<close> and the table \<^verbatim>\<open>self.df\<close> is
  the list of its rows in file order. A timestamp is the integer number of nanoseconds
  that a pandas \<^verbatim>\<open>Timestamp\<close> holds; \<^verbatim>\<open>pd.Timedelta(minutes=60)\<close> is \<open>interval_duration\<close>.
  The column \<^verbatim>\<open>filename\<close> of the log is called \<open>log_filename\<close>, because the per-file rows
  computed from the log have a key of the same name.
\<close>

record access_event =
  log_filename :: string
  node_id :: int
  timestamp :: int
  current_replication_factor :: int

text \<open>
  The dictionaries built by \<^verbatim>\<open>process_files\<close> gain keys as they move through the interval:
  \<^verbatim>\<open>classification\<close> in \<^verbatim>\<open>classify_files\<close>, \<^verbatim>\<open>nrf_i\<close> in the two update steps, and the flag and the
  interval columns in \<^verbatim>\<open>save_interval_results\<close>. Each stage is a record extending the
  previous one.

  Python floats (\<^verbatim>\<open>PD_i\<close>, the threshold) are modelled by exact rationals. The only
  non-finite floats the program can produce come from the division by \<^verbatim>\<open>DN_count\<close> in
  \<^verbatim>\<open>calculate_threshold\<close>, which is a numpy division and yields an infinity or NaN (with
  a warning, not an exception) when \<^verbatim>\<open>DN_count\<close> is 0; \<open>np_float\<close> keeps these cases.
\<close>

datatype error = KeyError | ZeroDivisionError | IndexError

datatype tier = HOT | WARM | COLD

datatype np_float = Finite rat | PosInf | NegInf | NaN

record file_metrics =
  filename :: string
  ac_i :: int
  dnc_i :: int
  crf_i :: int
  w_i :: int
  PD_i :: rat

record classified_file = file_metrics +
  classification :: tier

record updated_file = classified_file +
  nrf_i :: int

record result_row = updated_file +
  erasure_coding :: bool
  threshold :: np_float
  interval_start :: int
  interval_end :: int

type_synonym rf_state = "string \<rightharpoonup> int"

section \<open>calculator.py\<close>

definition calculate_weight :: "int \<Rightarrow> int \<Rightarrow> int" where
  "calculate_weight dnc DN_count =
     (if (of_int dnc :: rat) \<ge> of_int DN_count * (3 / 4) then 4
      else if (of_int dnc :: rat) \<ge> of_int DN_count * (1 / 2) then 3
      else if (of_int dnc :: rat) \<ge> of_int DN_count * (1 / 4) then 2
      else 1)"

text \<open>True division \<^verbatim>\<open>a / b\<close> of two integers: the quotient as a float, or \<^verbatim>\<open>ZeroDivisionError\<close>.\<close>

definition py_truediv :: "int \<Rightarrow> int \<Rightarrow> error + rat" where
  "py_truediv a b = (if b = 0 then Inl ZeroDivisionError else Inr (of_int a / of_int b))"

definition calculate_popularity_degree :: "int \<Rightarrow> int \<Rightarrow> int \<Rightarrow> int \<Rightarrow> error + rat" where
  "calculate_popularity_degree ac dnc w crf =
     (let crf' = (if crf = 0 then 1 else crf)
      in py_truediv (ac * dnc * w) crf')"

text \<open>Division of a numpy float by a Python integer: zero divisors give inf, -inf or nan.\<close>

definition np_truediv :: "rat \<Rightarrow> int \<Rightarrow> np_float" where
  "np_truediv x d =
     (if d \<noteq> 0 then Finite (x / of_int d)
      else if x > 0 then PosInf
      else if x < 0 then NegInf
      else NaN)"

text \<open>
  \<^verbatim>\<open>process_files\<close> returns \<^verbatim>\<open>pd.DataFrame([])\<close> for an interval without events: a table with
  no columns, on which \<^verbatim>\<open>file_metrics['PD_i']\<close> raises \<^verbatim>\<open>KeyError\<close> before any division.
\<close>

definition calculate_threshold :: "file_metrics list \<Rightarrow> int \<Rightarrow> error + np_float" where
  "calculate_threshold metrics DN_count =
     (if metrics = [] then Inl KeyError
      else
        let n = length metrics;
            sum_PD = sum_list (map PD_i metrics);
            mean_PD = sum_PD / of_nat n
        in Inr (np_truediv mean_PD DN_count))"

text \<open>The comparisons \<^verbatim>\<open>PD_i >= T\<close> and \<^verbatim>\<open>PD_i < T\<close> of a finite float with the threshold.\<close>

fun float_ge :: "rat \<Rightarrow> np_float \<Rightarrow> bool" where
  "float_ge x (Finite t) = (x \<ge> t)"
| "float_ge x PosInf = False"
| "float_ge x NegInf = True"
| "float_ge x NaN = False"

fun float_lt :: "rat \<Rightarrow> np_float \<Rightarrow> bool" where
  "float_lt x (Finite t) = (x < t)"
| "float_lt x PosInf = True"
| "float_lt x NegInf = False"
| "float_lt x NaN = False"

section \<open>replica\_clean.py: windowing\<close>

definition interval_duration :: int where
  "interval_duration = 60 * 60 * 1000000000"

function set_time_interval_loop :: "(int \<times> int) list \<Rightarrow> int \<Rightarrow> int \<Rightarrow> (int \<times> int) list" where
  "set_time_interval_loop intervals current max_time =
     (if current < max_time then
        (let end_time = current + interval_duration
         in set_time_interval_loop (intervals @ [(current, end_time)]) end_time max_time)
      else intervals)"
  by pat_completeness auto
termination
  by (relation "measure (\<lambda>(intervals, current, max_time). nat (max_time - current))")
     (auto simp: interval_duration_def)

text \<open>
  On a log without rows the minimum and the maximum of the timestamp column are both
  \<^verbatim>\<open>NaT\<close>, the comparison \<^verbatim>\<open>NaT < NaT\<close> is false and the loop body never runs.
\<close>

definition set_time_interval :: "access_event list \<Rightarrow> (int \<times> int) list" where
  "set_time_interval df =
     (if df = [] then []
      else
        let min_time = Min (set (map timestamp df));
            max_time = Max (set (map timestamp df))
        in set_time_interval_loop [] min_time max_time)"

definition read_logfile :: "access_event list \<Rightarrow> int \<Rightarrow> int \<Rightarrow> access_event list" where
  "read_logfile df start_time end_time =
     filter (\<lambda>e. timestamp e \<ge> start_time \<and> timestamp e < end_time) df"

section \<open>replica\_clean.py: per-file metrics\<close>

text \<open>pandas' \<^verbatim>\<open>unique()\<close>: the distinct values in order of first appearance.\<close>

definition unique :: "'a list \<Rightarrow> 'a list" where
  "unique xs = rev (remdups (rev xs))"

text \<open>
  The body of the loop of \<^verbatim>\<open>process_files\<close> for one file name. \<^verbatim>\<open>iloc[0]\<close> raises
  \<^verbatim>\<open>IndexError\<close> on a selection without rows.
\<close>

definition process_file ::
  "int \<Rightarrow> access_event list \<Rightarrow> string \<Rightarrow> rf_state \<Rightarrow> error + (file_metrics \<times> rf_state)" where
  "process_file DN_count interval_logs fname current_rf =
     (let file_logs = filter (\<lambda>e. log_filename e = fname) interval_logs;
          ac = int (length file_logs);
          dnc = int (length (remdups (map node_id file_logs)));
          looked_up =
            (case current_rf fname of
               Some crf \<Rightarrow> Inr (crf, current_rf)
             | None \<Rightarrow>
                 (case file_logs of
                    [] \<Rightarrow> Inl IndexError
                  | e # _ \<Rightarrow>
                      Inr (current_replication_factor e,
                           current_rf(fname \<mapsto> current_replication_factor e))))
      in case looked_up of
           Inl err \<Rightarrow> Inl err
         | Inr (crf, current_rf') \<Rightarrow>
             let w = calculate_weight dnc DN_count
             in case calculate_popularity_degree ac dnc w crf of
                  Inl err \<Rightarrow> Inl err
                | Inr PD \<Rightarrow>
                    Inr (\<lparr>filename = fname, ac_i = ac, dnc_i = dnc, crf_i = crf,
                          w_i = w, PD_i = PD\<rparr>, current_rf'))"

fun process_files_loop ::
  "int \<Rightarrow> access_event list \<Rightarrow> string list \<Rightarrow> file_metrics list \<Rightarrow> rf_state
     \<Rightarrow> error + (file_metrics list \<times> rf_state)" where
  "process_files_loop DN_count interval_logs [] files current_rf = Inr (files, current_rf)"
| "process_files_loop DN_count interval_logs (fname # fnames) files current_rf =
     (case process_file DN_count interval_logs fname current_rf of
        Inl err \<Rightarrow> Inl err
      | Inr (row, current_rf') \<Rightarrow>
          process_files_loop DN_count interval_logs fnames (files @ [row]) current_rf')"

definition process_files ::
  "int \<Rightarrow> access_event list \<Rightarrow> rf_state \<Rightarrow> error + (file_metrics list \<times> rf_state)" where
  "process_files DN_count interval_logs current_rf =
     process_files_loop DN_count interval_logs (unique (map log_filename interval_logs))
       [] current_rf"

section \<open>replica\_clean.py: classification\<close>

definition with_classification :: "tier \<Rightarrow> file_metrics \<Rightarrow> classified_file" where
  "with_classification c row = file_metrics.extend row (classified_file.fields c)"

fun classify_files_loop ::
  "file_metrics list \<Rightarrow> np_float \<Rightarrow> classified_file list \<Rightarrow> classified_file list
     \<Rightarrow> classified_file list
     \<Rightarrow> classified_file list \<times> classified_file list \<times> classified_file list" where
  "classify_files_loop [] T HD WD CD = (HD, WD, CD)"
| "classify_files_loop (row # rows) T HD WD CD =
     (if float_ge (PD_i row) T \<and> w_i row \<in> set [3, 4] then
        classify_files_loop rows T (HD @ [with_classification HOT row]) WD CD
      else if float_ge (PD_i row) T \<and> w_i row \<in> set [1, 2] then
        classify_files_loop rows T HD (WD @ [with_classification WARM row]) CD
      else if float_lt (PD_i row) T \<and> w_i row \<in> set [3, 4] then
        classify_files_loop rows T HD (WD @ [with_classification WARM row]) CD
      else
        classify_files_loop rows T HD WD (CD @ [with_classification COLD row]))"

definition classify_files ::
  "file_metrics list \<Rightarrow> np_float
     \<Rightarrow> classified_file list \<times> classified_file list \<times> classified_file list" where
  "classify_files metrics T = classify_files_loop metrics T [] [] []"

section \<open>replica\_clean.py: replication update\<close>

text \<open>
  Python's built-in \<^verbatim>\<open>round\<close> on a float returns the nearest integer and resolves a tie
  to the even neighbour. The quotient \<^verbatim>\<open>(crf_i * dnc_i) / DN_count\<close> is taken exactly; the
  float quotient rounds to the same integer as long as the product stays below \<open>2^52\<close>.
\<close>

definition py_round :: "rat \<Rightarrow> int" where
  "py_round x =
     (let f = \<lfloor>x\<rfloor>; d = x - of_int f
      in if d < 1 / 2 then f
         else if d > 1 / 2 then f + 1
         else if even f then f else f + 1)"

definition new_rf :: "int \<Rightarrow> int \<Rightarrow> int \<Rightarrow> error + int" where
  "new_rf crf dnc DN_count =
     (case py_truediv (crf * dnc) DN_count of
        Inl err \<Rightarrow> Inl err
      | Inr nrf \<Rightarrow> Inr (max 1 (py_round nrf)))"

definition with_nrf :: "int \<Rightarrow> classified_file \<Rightarrow> updated_file" where
  "with_nrf n file_data = classified_file.extend file_data (updated_file.fields n)"

fun calculate_new_rf_loop ::
  "int \<Rightarrow> classified_file list \<Rightarrow> updated_file list \<Rightarrow> rf_state
     \<Rightarrow> error + (updated_file list \<times> rf_state)" where
  "calculate_new_rf_loop DN_count [] updated current_rf = Inr (updated, current_rf)"
| "calculate_new_rf_loop DN_count (file_data # rest) updated current_rf =
     (case new_rf (crf_i file_data) (dnc_i file_data) DN_count of
        Inl err \<Rightarrow> Inl err
      | Inr nrf \<Rightarrow>
          calculate_new_rf_loop DN_count rest (updated @ [with_nrf nrf file_data])
            (current_rf(filename file_data \<mapsto> nrf)))"

text \<open>
  The loop runs over \<^verbatim>\<open>HD + WD\<close>, whose elements are the dictionaries of \<^verbatim>\<open>HD\<close> and \<^verbatim>\<open>WD\<close>
  themselves; the updated lists are the two parts of the updated concatenation.
\<close>

definition calculate_new_rf_for_hot_warm ::
  "int \<Rightarrow> classified_file list \<Rightarrow> classified_file list \<Rightarrow> rf_state
     \<Rightarrow> error + (updated_file list \<times> updated_file list \<times> rf_state)" where
  "calculate_new_rf_for_hot_warm DN_count HD WD current_rf =
     (case calculate_new_rf_loop DN_count (HD @ WD) [] current_rf of
        Inl err \<Rightarrow> Inl err
      | Inr (updated, current_rf') \<Rightarrow>
          Inr (take (length HD) updated, drop (length HD) updated, current_rf'))"

fun process_cold_data_loop ::
  "classified_file list \<Rightarrow> updated_file list \<Rightarrow> rf_state \<Rightarrow> updated_file list \<times> rf_state" where
  "process_cold_data_loop [] updated current_rf = (updated, current_rf)"
| "process_cold_data_loop (file_data # rest) updated current_rf =
     (let nrf = 1
      in process_cold_data_loop rest (updated @ [with_nrf nrf file_data])
           (current_rf(filename file_data \<mapsto> nrf)))"

definition process_cold_data ::
  "classified_file list \<Rightarrow> rf_state \<Rightarrow> updated_file list \<times> rf_state" where
  "process_cold_data CD current_rf = process_cold_data_loop CD [] current_rf"

section \<open>replica\_clean.py: results and the interval loop\<close>

text \<open>
  One written file \<^verbatim>\<open>interval_<idx>_results.csv\<close> is an \<open>interval_result\<close>. Selecting the
  columns of a table built from an empty list raises \<^verbatim>\<open>KeyError\<close>.
\<close>

record interval_result =
  interval_idx :: nat
  rows :: "result_row list"

definition classification_order :: "tier \<Rightarrow> nat" where
  "classification_order c = (case c of HOT \<Rightarrow> 0 | WARM \<Rightarrow> 1 | COLD \<Rightarrow> 2)"

definition with_result_columns ::
  "np_float \<Rightarrow> int \<Rightarrow> int \<Rightarrow> updated_file \<Rightarrow> result_row" where
  "with_result_columns T start_time end_time file_data =
     updated_file.extend file_data
       (result_row.fields (nrf_i file_data = 1) T start_time end_time)"

definition save_interval_results ::
  "nat \<Rightarrow> int \<Rightarrow> int \<Rightarrow> updated_file list \<Rightarrow> updated_file list \<Rightarrow> updated_file list
     \<Rightarrow> np_float \<Rightarrow> error + interval_result" where
  "save_interval_results idx start_time end_time HD WD CD T =
     (let all_files = map (with_result_columns T start_time end_time) (HD @ WD @ CD)
      in if all_files = [] then Inl KeyError
         else Inr \<lparr>interval_idx = idx,
                   rows = sort_key (\<lambda>r. (classification_order (classification r), filename r))
                            all_files\<rparr>)"

text \<open>The body of the loop of \<^verbatim>\<open>run\<close> for one interval.\<close>

definition run_interval ::
  "int \<Rightarrow> access_event list \<Rightarrow> nat \<Rightarrow> int \<times> int \<Rightarrow> rf_state
     \<Rightarrow> error + (interval_result \<times> rf_state)" where
  "run_interval DN_count df idx interval current_rf =
     (case interval of (start_time, end_time) \<Rightarrow>
        let interval_logs = read_logfile df start_time end_time
        in case process_files DN_count interval_logs current_rf of
             Inl err \<Rightarrow> Inl err
           | Inr (metrics, rf1) \<Rightarrow>
               (case calculate_threshold metrics DN_count of
                  Inl err \<Rightarrow> Inl err
                | Inr T \<Rightarrow>
                    (case classify_files metrics T of
                       (HD, WD, CD) \<Rightarrow>
                         (case calculate_new_rf_for_hot_warm DN_count HD WD rf1 of
                            Inl err \<Rightarrow> Inl err
                          | Inr (HD', WD', rf2) \<Rightarrow>
                              (case process_cold_data CD rf2 of
                                 (CD', rf3) \<Rightarrow>
                                   (case save_interval_results idx start_time end_time
                                           HD' WD' CD' T of
                                      Inl err \<Rightarrow> Inl err
                                    | Inr res \<Rightarrow> Inr (res, rf3)))))))"

text \<open>
  A run writes one result per interval, in order, and stops at the first exception; the
  files written before it stay. \<open>status\<close> is the exception that ended the run, if any.
\<close>

record run_result =
  results :: "interval_result list"
  status :: "error option"

fun run_loop ::
  "int \<Rightarrow> access_event list \<Rightarrow> (int \<times> int) list \<Rightarrow> nat \<Rightarrow> rf_state
     \<Rightarrow> interval_result list \<Rightarrow> run_result" where
  "run_loop DN_count df [] idx current_rf written = \<lparr>results = written, status = None\<rparr>"
| "run_loop DN_count df (interval # rest) idx current_rf written =
     (case run_interval DN_count df idx interval current_rf of
        Inl err \<Rightarrow> \<lparr>results = written, status = Some err\<rparr>
      | Inr (res, current_rf') \<Rightarrow>
          run_loop DN_count df rest (Suc idx) current_rf' (written @ [res]))"

definition run :: "int \<Rightarrow> access_event list \<Rightarrow> run_result" where
  "run DN_count df = run_loop DN_count df (set_time_interval df) 1 Map.empty []"

section \<open>Reference definitions and sample logs\<close>

text \<open>
  The rounding rule named by the specification, round-half-up, for comparison with
  \<open>py_round\<close>, which is the rule the program uses.
\<close>

definition round_half_up :: "rat \<Rightarrow> int" where
  "round_half_up x = \<lfloor>x + 1 / 2\<rfloor>"

text \<open>One file read by five nodes within the first five nanoseconds of the log.\<close>

definition tie_log :: "access_event list" where
  "tie_log =
     [\<lparr>log_filename = ''F'', node_id = 1, timestamp = 0, current_replication_factor = 5\<rparr>,
      \<lparr>log_filename = ''F'', node_id = 2, timestamp = 1, current_replication_factor = 5\<rparr>,
      \<lparr>log_filename = ''F'', node_id = 3, timestamp = 2, current_replication_factor = 5\<rparr>,
      \<lparr>log_filename = ''F'', node_id = 4, timestamp = 3, current_replication_factor = 5\<rparr>,
      \<lparr>log_filename = ''F'', node_id = 5, timestamp = 4, current_replication_factor = 5\<rparr>]"

text \<open>The two rows of the worked example: a widely read file and a rarely read one.\<close>

definition row_F :: file_metrics where
  "row_F = \<lparr>filename = ''F'', ac_i = 50, dnc_i = 9, crf_i = 3, w_i = 4, PD_i = 600\<rparr>"

definition row_G :: file_metrics where
  "row_G = \<lparr>filename = ''G'', ac_i = 2, dnc_i = 1, crf_i = 3, w_i = 1, PD_i = 2 / 3\<rparr>"


text \<open>
  Three hours of reads: file A is read by nine nodes and file G once in the first hour,
  G again in the second hour, A again in the third.
\<close>

definition history_log :: "access_event list" where
  "history_log =
     [\<lparr>log_filename = ''A'', node_id = 1, timestamp = 0, current_replication_factor = 3\<rparr>,
      \<lparr>log_filename = ''A'', node_id = 2, timestamp = 1, current_replication_factor = 3\<rparr>,
      \<lparr>log_filename = ''A'', node_id = 3, timestamp = 2, current_replication_factor = 3\<rparr>,
      \<lparr>log_filename = ''A'', node_id = 4, timestamp = 3, current_replication_factor = 3\<rparr>,
      \<lparr>log_filename = ''A'', node_id = 5, timestamp = 4, current_replication_factor = 3\<rparr>,
      \<lparr>log_filename = ''A'', node_id = 6, timestamp = 5, current_replication_factor = 3\<rparr>,
      \<lparr>log_filename = ''A'', node_id = 7, timestamp = 6, current_replication_factor = 3\<rparr>,
      \<lparr>log_filename = ''A'', node_id = 8, timestamp = 7, current_replication_factor = 3\<rparr>,
      \<lparr>log_filename = ''A'', node_id = 9, timestamp = 8, current_replication_factor = 3\<rparr>,
      \<lparr>log_filename = ''G'', node_id = 1, timestamp = 9, current_replication_factor = 3\<rparr>,
      \<lparr>log_filename = ''G'', node_id = 1, timestamp = 3600000000005,
        current_replication_factor = 3\<rparr>,
      \<lparr>log_filename = ''A'', node_id = 1, timestamp = 7200000000007,
        current_replication_factor = 3\<rparr>]"

text \<open>A log with a single row, and a log whose last read is exactly one hour after its first.\<close>

definition single_event_log :: "access_event list" where
  "single_event_log =
     [\<lparr>log_filename = ''A'', node_id = 1, timestamp = 1000, current_replication_factor = 3\<rparr>]"

definition boundary_log :: "access_event list" where
  "boundary_log =
     [\<lparr>log_filename = ''A'', node_id = 1, timestamp = 0, current_replication_factor = 3\<rparr>,
      \<lparr>log_filename = ''B'', node_id = 2, timestamp = 3600000000000,
        current_replication_factor = 3\<rparr>]"

text \<open>
  Closed forms of the per-file loop body, used to state what the program computes: the
  replication factor taken from the first row of a file in the window, the one
  \<^verbatim>\<open>process_files\<close> uses (the stored one if there is one), the row it builds, and the
  value the two update steps store for a classified row.
\<close>

definition initial_rf :: "access_event list \<Rightarrow> string \<Rightarrow> int" where
  "initial_rf interval_logs fname =
     current_replication_factor (hd (filter (\<lambda>e. log_filename e = fname) interval_logs))"

definition current_or_initial_rf :: "rf_state \<Rightarrow> access_event list \<Rightarrow> string \<Rightarrow> int" where
  "current_or_initial_rf current_rf interval_logs fname =
     (case current_rf fname of Some crf \<Rightarrow> crf | None \<Rightarrow> initial_rf interval_logs fname)"

definition metrics_row :: "int \<Rightarrow> access_event list \<Rightarrow> string \<Rightarrow> int \<Rightarrow> file_metrics" where
  "metrics_row DN_count interval_logs fname crf =
     (let file_logs = filter (\<lambda>e. log_filename e = fname) interval_logs;
          ac = int (length file_logs);
          dnc = int (length (remdups (map node_id file_logs)));
          w = calculate_weight dnc DN_count
      in \<lparr>filename = fname, ac_i = ac, dnc_i = dnc, crf_i = crf, w_i = w,
          PD_i = of_int (ac * dnc * w) / of_int (if crf = 0 then 1 else crf)\<rparr>)"

definition updated_rf :: "int \<Rightarrow> 'a classified_file_scheme \<Rightarrow> int" where
  "updated_rf DN_count file_data =
     (if classification file_data = COLD then 1
      else max 1 (py_round (of_int (crf_i file_data * dnc_i file_data) / of_int DN_count)))"

text \<open>
  The number of intervals the window loop produces for a log, and the replication factor
  last written for a file in a list of interval results (the rows of one result have
  distinct file names, so this is the \<open>nrf_i\<close> of the file's row in the most recent result
  that has one).
\<close>

definition interval_count :: "access_event list \<Rightarrow> nat" where
  "interval_count df =
     nat ((Max (set (map timestamp df)) - Min (set (map timestamp df)) + interval_duration - 1)
            div interval_duration)"

definition last_nrf :: "interval_result list \<Rightarrow> string \<Rightarrow> int option" where
  "last_nrf written fname =
     (case filter (\<lambda>r. filename r = fname) (concat (map rows written)) of
        [] \<Rightarrow> None
      | r # rs \<Rightarrow> Some (nrf_i (last (r # rs))))"

section \<open>Basic facts about the model\<close>

subsection \<open>Record stages\<close>

lemma with_classification_simps:
  "filename (with_classification c r) = filename r"
  "ac_i (with_classification c r) = ac_i r"
  "dnc_i (with_classification c r) = dnc_i r"
  "crf_i (with_classification c r) = crf_i r"
  "w_i (with_classification c r) = w_i r"
  "PD_i (with_classification c r) = PD_i r"
  "classification (with_classification c r) = c"
  by (simp_all add: with_classification_def file_metrics.defs classified_file.defs)

lemma with_nrf_simps:
  "filename (with_nrf n r) = filename r"
  "ac_i (with_nrf n r) = ac_i r"
  "dnc_i (with_nrf n r) = dnc_i r"
  "crf_i (with_nrf n r) = crf_i r"
  "w_i (with_nrf n r) = w_i r"
  "PD_i (with_nrf n r) = PD_i r"
  "classification (with_nrf n r) = classification r"
  "nrf_i (with_nrf n r) = n"
  by (simp_all add: with_nrf_def classified_file.defs updated_file.defs)

lemma with_result_columns_simps:
  "filename (with_result_columns T s e r) = filename r"
  "ac_i (with_result_columns T s e r) = ac_i r"
  "dnc_i (with_result_columns T s e r) = dnc_i r"
  "crf_i (with_result_columns T s e r) = crf_i r"
  "w_i (with_result_columns T s e r) = w_i r"
  "PD_i (with_result_columns T s e r) = PD_i r"
  "classification (with_result_columns T s e r) = classification r"
  "nrf_i (with_result_columns T s e r) = nrf_i r"
  "erasure_coding (with_result_columns T s e r) = (nrf_i r = 1)"
  "threshold (with_result_columns T s e r) = T"
  "interval_start (with_result_columns T s e r) = s"
  "interval_end (with_result_columns T s e r) = e"
  by (simp_all add: with_result_columns_def updated_file.defs result_row.defs)

subsection \<open>Replication state updates\<close>

lemma new_rf_ok: "DN \<noteq> 0 \<Longrightarrow> new_rf crf dnc DN = Inr (max 1 (py_round (of_int (crf * dnc) / of_int DN)))"
  by (simp add: new_rf_def py_truediv_def)

lemma calculate_new_rf_loop_ok:
  "DN \<noteq> 0 \<Longrightarrow>
   calculate_new_rf_loop DN rs acc rf =
     Inr (acc @ map (\<lambda>r. with_nrf (max 1 (py_round (of_int (crf_i r * dnc_i r) / of_int DN))) r) rs,
          fold (\<lambda>r m. m(filename r \<mapsto> max 1 (py_round (of_int (crf_i r * dnc_i r) / of_int DN)))) rs rf)"
  by (induction rs arbitrary: acc rf) (simp_all add: new_rf_ok)

lemma fold_upd_notin:
  "f \<notin> key ` set rs \<Longrightarrow> fold (\<lambda>r m. m(key r \<mapsto> val r)) rs m f = m f"
  by (induction rs arbitrary: m) auto

lemma fold_upd_in:
  "distinct (map key rs) \<Longrightarrow> r \<in> set rs \<Longrightarrow> fold (\<lambda>r m. m(key r \<mapsto> val r)) rs m (key r) = Some (val r)"
proof (induction rs arbitrary: m)
  case Nil then show ?case by simp
next
  case (Cons a rs)
  show ?case
  proof (cases "r = a")
    case True
    with Cons.prems have "key a \<notin> key ` set rs" by simp
    then have "fold (\<lambda>r m. m(key r \<mapsto> val r)) rs (m(key a \<mapsto> val a)) (key a)
                 = (m(key a \<mapsto> val a)) (key a)"
      by (rule fold_upd_notin)
    then show ?thesis unfolding True by (simp only: fold.simps comp_apply fun_upd_same)
  next
    case False
    with Cons.prems have "distinct (map key rs)" "r \<in> set rs" by auto
    then have "fold (\<lambda>r m. m(key r \<mapsto> val r)) rs (m(key a \<mapsto> val a)) (key r) = Some (val r)"
      by (rule Cons.IH)
    then show ?thesis by (simp only: fold.simps comp_apply)
  qed
qed

subsection \<open>Classification loop\<close>

lemma float_lt_iff: "T \<noteq> NaN \<Longrightarrow> float_lt x T \<longleftrightarrow> \<not> float_ge x T"
  by (cases T) auto

lemma classify_files_loop_eq:
  "classify_files_loop metrics T HD WD CD =
     (HD @ map (with_classification HOT)
            (filter (\<lambda>r. float_ge (PD_i r) T \<and> w_i r \<in> {3, 4}) metrics),
      WD @ map (with_classification WARM)
            (filter (\<lambda>r. \<not> (float_ge (PD_i r) T \<and> w_i r \<in> {3, 4})
                        \<and> (float_ge (PD_i r) T \<and> w_i r \<in> {1, 2}
                           \<or> float_lt (PD_i r) T \<and> w_i r \<in> {3, 4})) metrics),
      CD @ map (with_classification COLD)
            (filter (\<lambda>r. \<not> (float_ge (PD_i r) T \<and> w_i r \<in> {3, 4})
                        \<and> \<not> (float_ge (PD_i r) T \<and> w_i r \<in> {1, 2})
                        \<and> \<not> (float_lt (PD_i r) T \<and> w_i r \<in> {3, 4})) metrics))"
  by (induction metrics arbitrary: HD WD CD) simp_all

lemma length_filter3:
  "(\<And>x. x \<in> set xs \<Longrightarrow> (P x \<and> \<not> Q x \<and> \<not> R x) \<or> (\<not> P x \<and> Q x \<and> \<not> R x) \<or> (\<not> P x \<and> \<not> Q x \<and> R x)) \<Longrightarrow>
   length (filter P xs) + length (filter Q xs) + length (filter R xs) = length xs"
  by (induction xs) auto

subsection \<open>Per-file metrics\<close>

lemma set_unique [simp]: "set (unique xs) = set xs"
  by (simp add: unique_def)

lemma distinct_unique [simp]: "distinct (unique xs)"
  by (simp add: unique_def)

lemma unique_Nil [simp]: "unique [] = []"
  by (simp add: unique_def)

lemma unique_eq_Nil [simp]: "unique xs = [] \<longleftrightarrow> xs = []"
  by (simp add: unique_def)

lemma calculate_popularity_degree_eq:
  "calculate_popularity_degree ac dnc w crf
     = Inr (of_int (ac * dnc * w) / of_int (if crf = 0 then 1 else crf))"
  by (simp add: calculate_popularity_degree_def py_truediv_def)

lemma process_file_ok:
  assumes "fname \<in> log_filename ` set interval_logs"
  shows "process_file DN_count interval_logs fname current_rf
           = Inr (metrics_row DN_count interval_logs fname
                    (current_or_initial_rf current_rf interval_logs fname),
                  current_rf(fname \<mapsto> current_or_initial_rf current_rf interval_logs fname))"
proof -
  from assms have ne: "filter (\<lambda>e. log_filename e = fname) interval_logs \<noteq> []"
    by (auto simp: filter_empty_conv)
  then obtain e es where fl: "filter (\<lambda>e. log_filename e = fname) interval_logs = e # es"
    by (cases "filter (\<lambda>e. log_filename e = fname) interval_logs") auto
  show ?thesis
  proof (cases "current_rf fname")
    case None
    then show ?thesis
      by (simp add: process_file_def fl metrics_row_def current_or_initial_rf_def initial_rf_def
            calculate_popularity_degree_eq Let_def)
  next
    case (Some v)
    then have "current_rf(fname \<mapsto> v) = current_rf" by (simp add: map_upd_triv)
    with Some show ?thesis
      by (simp add: process_file_def fl metrics_row_def current_or_initial_rf_def
            calculate_popularity_degree_eq Let_def)
  qed
qed

lemma current_or_initial_rf_upd:
  "g \<noteq> f \<Longrightarrow> current_or_initial_rf (rf(g \<mapsto> v)) logs f = current_or_initial_rf rf logs f"
  by (simp add: current_or_initial_rf_def)

lemma process_files_loop_ok:
  assumes "set fnames \<subseteq> log_filename ` set interval_logs" and "distinct fnames"
  shows "process_files_loop DN_count interval_logs fnames files current_rf
           = Inr (files @ map (\<lambda>f. metrics_row DN_count interval_logs f
                                   (current_or_initial_rf current_rf interval_logs f)) fnames,
                  \<lambda>f. if f \<in> set fnames
                      then Some (current_or_initial_rf current_rf interval_logs f)
                      else current_rf f)"
  using assms
proof (induction fnames arbitrary: files current_rf)
  case Nil
  then show ?case by simp
next
  case (Cons g gs)
  let ?v = "current_or_initial_rf current_rf interval_logs g"
  let ?rf = "current_rf(g \<mapsto> ?v)"
  from Cons.prems have g: "g \<in> log_filename ` set interval_logs"
    and gs: "set gs \<subseteq> log_filename ` set interval_logs" "distinct gs" and ng: "g \<notin> set gs"
    by auto
  have same: "\<And>f. f \<in> set gs \<Longrightarrow>
                current_or_initial_rf ?rf interval_logs f = current_or_initial_rf current_rf interval_logs f"
    using ng by (intro current_or_initial_rf_upd) auto
  have m: "map (\<lambda>f. metrics_row DN_count interval_logs f (current_or_initial_rf ?rf interval_logs f)) gs
         = map (\<lambda>f. metrics_row DN_count interval_logs f (current_or_initial_rf current_rf interval_logs f)) gs"
    by (rule map_cong) (simp_all add: same)
  have st: "(\<lambda>f. if f \<in> set gs then Some (current_or_initial_rf ?rf interval_logs f) else ?rf f)
          = (\<lambda>f. if f \<in> set (g # gs) then Some (current_or_initial_rf current_rf interval_logs f)
                  else current_rf f)"
    by (rule ext) (simp add: same)
  show ?case
    by (simp only: process_files_loop.simps process_file_ok [OF g] sum.case prod.case
          Cons.IH [OF gs] m st list.map append_assoc append_Cons append_Nil)
qed

lemma process_files_ok:
  "process_files DN_count interval_logs current_rf
     = Inr (map (\<lambda>f. metrics_row DN_count interval_logs f
                       (current_or_initial_rf current_rf interval_logs f))
              (unique (map log_filename interval_logs)),
            \<lambda>f. if f \<in> log_filename ` set interval_logs
                then Some (current_or_initial_rf current_rf interval_logs f)
                else current_rf f)"
  unfolding process_files_def
  by (subst process_files_loop_ok) simp_all

lemma metrics_row_simps:
  "filename (metrics_row DN logs f c) = f"
  "crf_i (metrics_row DN logs f c) = c"
  "ac_i (metrics_row DN logs f c) = int (length (filter (\<lambda>e. log_filename e = f) logs))"
  "dnc_i (metrics_row DN logs f c)
     = int (length (remdups (map node_id (filter (\<lambda>e. log_filename e = f) logs))))"
  "w_i (metrics_row DN logs f c) = calculate_weight (dnc_i (metrics_row DN logs f c)) DN"
  by (simp_all add: metrics_row_def Let_def)

lemma updated_rf_simps:
  "updated_rf DN (with_nrf n x) = updated_rf DN x"
  "updated_rf DN (with_result_columns T s e y) = updated_rf DN y"
  by (simp_all add: updated_rf_def with_nrf_simps with_result_columns_simps)


subsection \<open>Classification and update of one interval\<close>

lemma classify_files_cases:
  assumes "classify_files metrics T = (HD, WD, CD)"
  obtains hot warm cold where
    "HD = map (with_classification HOT) (filter hot metrics)"
    "WD = map (with_classification WARM) (filter warm metrics)"
    "CD = map (with_classification COLD) (filter cold metrics)"
    "\<And>r. (hot r \<and> \<not> warm r \<and> \<not> cold r) \<or> (\<not> hot r \<and> warm r \<and> \<not> cold r)
          \<or> (\<not> hot r \<and> \<not> warm r \<and> cold r)"
proof -
  let ?hot = "\<lambda>r::file_metrics. float_ge (PD_i r) T \<and> w_i r \<in> {3, 4}"
  let ?warm = "\<lambda>r::file_metrics. \<not> (float_ge (PD_i r) T \<and> w_i r \<in> {3, 4})
                        \<and> (float_ge (PD_i r) T \<and> w_i r \<in> {1, 2}
                           \<or> float_lt (PD_i r) T \<and> w_i r \<in> {3, 4})"
  let ?cold = "\<lambda>r::file_metrics. \<not> (float_ge (PD_i r) T \<and> w_i r \<in> {3, 4})
                        \<and> \<not> (float_ge (PD_i r) T \<and> w_i r \<in> {1, 2})
                        \<and> \<not> (float_lt (PD_i r) T \<and> w_i r \<in> {3, 4})"
  from assms have "HD = map (with_classification HOT) (filter ?hot metrics)"
    "WD = map (with_classification WARM) (filter ?warm metrics)"
    "CD = map (with_classification COLD) (filter ?cold metrics)"
    by (simp_all add: classify_files_def classify_files_loop_eq)
  moreover have "\<And>r. (?hot r \<and> \<not> ?warm r \<and> \<not> ?cold r) \<or> (\<not> ?hot r \<and> ?warm r \<and> \<not> ?cold r)
          \<or> (\<not> ?hot r \<and> \<not> ?warm r \<and> ?cold r)"
    by blast
  ultimately show thesis by (rule that)
qed

lemma distinct_map_filter3:
  assumes "distinct (map f xs)"
    and "\<And>r. (P r \<and> \<not> Q r \<and> \<not> R r) \<or> (\<not> P r \<and> Q r \<and> \<not> R r) \<or> (\<not> P r \<and> \<not> Q r \<and> R r)"
  shows "distinct (map f (filter P xs) @ map f (filter Q xs) @ map f (filter R xs))"
  using assms(1)
proof (induction xs)
  case Nil
  then show ?case by simp
next
  case (Cons a xs)
  from assms(2) [of a] Cons show ?case by auto
qed

lemma set_filter3:
  assumes "\<And>r. (P r \<and> \<not> Q r \<and> \<not> R r) \<or> (\<not> P r \<and> Q r \<and> \<not> R r) \<or> (\<not> P r \<and> \<not> Q r \<and> R r)"
  shows "set (filter P xs) \<union> set (filter Q xs) \<union> set (filter R xs) = set xs"
  using assms by auto

lemma map_filename_with_classification [simp]:
  "map filename (map (with_classification c) rs) = map filename rs"
  by (simp add: with_classification_simps o_def)

lemma classify_files_filenames:
  assumes "classify_files metrics T = (HD, WD, CD)"
  shows "filename ` set (HD @ WD @ CD) = filename ` set metrics"
    and "distinct (map filename metrics) \<Longrightarrow> distinct (map filename (HD @ WD @ CD))"
    and "\<forall>x \<in> set (HD @ WD). classification x \<noteq> COLD"
    and "\<forall>x \<in> set CD. classification x = COLD"
    and "\<forall>x \<in> set (HD @ WD @ CD). \<exists>r \<in> set metrics. \<exists>c. x = with_classification c r"
proof -
  from assms obtain hot warm cold where
    HD: "HD = map (with_classification HOT) (filter hot metrics)" and
    WD: "WD = map (with_classification WARM) (filter warm metrics)" and
    CD: "CD = map (with_classification COLD) (filter cold metrics)" and
    ex: "\<And>r. (hot r \<and> \<not> warm r \<and> \<not> cold r) \<or> (\<not> hot r \<and> warm r \<and> \<not> cold r)
          \<or> (\<not> hot r \<and> \<not> warm r \<and> cold r)"
    by (rule classify_files_cases) blast
  have "filename ` set (HD @ WD @ CD)
          = filename ` (set (filter hot metrics) \<union> set (filter warm metrics) \<union> set (filter cold metrics))"
    unfolding HD WD CD by (simp add: image_Un image_image with_classification_simps Un_assoc)
  also have "\<dots> = filename ` set metrics"
    by (simp only: set_filter3 [of hot warm cold, OF ex])
  finally show "filename ` set (HD @ WD @ CD) = filename ` set metrics" .
  show "distinct (map filename metrics) \<Longrightarrow> distinct (map filename (HD @ WD @ CD))"
    unfolding HD WD CD map_append map_filename_with_classification
    by (rule distinct_map_filter3 [OF _ ex])
  show "\<forall>x \<in> set (HD @ WD). classification x \<noteq> COLD"
    unfolding HD WD by (auto simp: with_classification_simps)
  show "\<forall>x \<in> set CD. classification x = COLD"
    unfolding CD by (auto simp: with_classification_simps)
  show "\<forall>x \<in> set (HD @ WD @ CD). \<exists>r \<in> set metrics. \<exists>c. x = with_classification c r"
    unfolding HD WD CD by auto
qed

lemma calculate_new_rf_loop_Inr:
  assumes "calculate_new_rf_loop DN_count rs acc rf = Inr (upd, rf')"
  shows "upd = acc @ map (\<lambda>r. with_nrf (max 1 (py_round (of_int (crf_i r * dnc_i r) / of_int DN_count))) r) rs"
    and "rf' = fold (\<lambda>r m. m(filename r \<mapsto> max 1 (py_round (of_int (crf_i r * dnc_i r) / of_int DN_count)))) rs rf"
proof -
  have "upd = acc @ map (\<lambda>r. with_nrf (max 1 (py_round (of_int (crf_i r * dnc_i r) / of_int DN_count))) r) rs
      \<and> rf' = fold (\<lambda>r m. m(filename r \<mapsto> max 1 (py_round (of_int (crf_i r * dnc_i r) / of_int DN_count)))) rs rf"
  proof (cases "DN_count = 0")
    case False
    from calculate_new_rf_loop_ok [OF False, of rs acc rf] assms show ?thesis by simp
  next
    case True
    show ?thesis
    proof (cases rs)
      case Nil
      with assms show ?thesis by simp
    next
      case (Cons a as)
      with assms True show ?thesis by (simp add: new_rf_def py_truediv_def)
    qed
  qed
  then show "upd = acc @ map (\<lambda>r. with_nrf (max 1 (py_round (of_int (crf_i r * dnc_i r) / of_int DN_count))) r) rs"
    and "rf' = fold (\<lambda>r m. m(filename r \<mapsto> max 1 (py_round (of_int (crf_i r * dnc_i r) / of_int DN_count)))) rs rf"
    by simp_all
qed

lemma process_cold_data_loop_eq:
  "process_cold_data_loop rs acc rf
     = (acc @ map (with_nrf 1) rs, fold (\<lambda>r m. m(filename r \<mapsto> 1)) rs rf)"
  by (induction rs arbitrary: acc rf) simp_all

lemma run_interval_InrE:
  assumes "run_interval DN df idx (s, e) rf = Inr (res, rf')"
  obtains metrics rf1 T HD WD CD HD' WD' rf2 CD' where
    "process_files DN (read_logfile df s e) rf = Inr (metrics, rf1)"
    "calculate_threshold metrics DN = Inr T"
    "classify_files metrics T = (HD, WD, CD)"
    "calculate_new_rf_for_hot_warm DN HD WD rf1 = Inr (HD', WD', rf2)"
    "process_cold_data CD rf2 = (CD', rf')"
    "save_interval_results idx s e HD' WD' CD' T = Inr res"
  using assms
  by (auto simp: run_interval_def Let_def split: sum.splits prod.splits)

lemma hot_warm_cold_update:
  assumes hw: "calculate_new_rf_for_hot_warm DN HD WD rf1 = Inr (HD', WD', rf2)"
    and cd: "process_cold_data CD rf2 = (CD', rf3)"
    and nc: "\<forall>x \<in> set (HD @ WD). classification x \<noteq> COLD"
    and c: "\<forall>x \<in> set CD. classification x = COLD"
  shows "HD' @ WD' @ CD' = map (\<lambda>x. with_nrf (updated_rf DN x) x) (HD @ WD @ CD)"
    and "rf3 = fold (\<lambda>x m. m(filename x \<mapsto> updated_rf DN x)) (HD @ WD @ CD) rf1"
proof -
  let ?n = "\<lambda>r::classified_file. max 1 (py_round (of_int (crf_i r * dnc_i r) / of_int DN))"
  from hw obtain upd where
    loop: "calculate_new_rf_loop DN (HD @ WD) [] rf1 = Inr (upd, rf2)"
    and HD': "HD' = take (length HD) upd" and WD': "WD' = drop (length HD) upd"
    by (auto simp: calculate_new_rf_for_hot_warm_def split: sum.splits prod.splits)
  from calculate_new_rf_loop_Inr [OF loop]
  have upd: "upd = map (\<lambda>r. with_nrf (?n r) r) (HD @ WD)"
    and rf2: "rf2 = fold (\<lambda>r m. m(filename r \<mapsto> ?n r)) (HD @ WD) rf1"
    by simp_all
  have hw_eq: "HD' @ WD' = upd"
    unfolding HD' WD' by simp
  have upd': "upd = map (\<lambda>x. with_nrf (updated_rf DN x) x) (HD @ WD)"
    unfolding upd by (rule map_cong) (use nc in \<open>auto simp: updated_rf_def\<close>)
  have rf2': "rf2 = fold (\<lambda>x m. m(filename x \<mapsto> updated_rf DN x)) (HD @ WD) rf1"
    unfolding rf2 by (rule fold_cong) (use nc in \<open>auto simp: updated_rf_def\<close>)
  from cd have CD': "CD' = map (with_nrf 1) CD"
    and rf3: "rf3 = fold (\<lambda>r m. m(filename r \<mapsto> 1)) CD rf2"
    by (simp_all add: process_cold_data_def process_cold_data_loop_eq)
  have CD'': "CD' = map (\<lambda>x. with_nrf (updated_rf DN x) x) CD"
    unfolding CD' by (rule map_cong) (use c in \<open>auto simp: updated_rf_def\<close>)
  have rf3': "rf3 = fold (\<lambda>x m. m(filename x \<mapsto> updated_rf DN x)) CD rf2"
    unfolding rf3 by (rule fold_cong) (use c in \<open>auto simp: updated_rf_def\<close>)
  have "HD' @ WD' @ CD' = (HD' @ WD') @ CD'" by simp
  also have "\<dots> = map (\<lambda>x. with_nrf (updated_rf DN x) x) (HD @ WD @ CD)"
    unfolding hw_eq upd' CD'' by simp
  finally show "HD' @ WD' @ CD' = map (\<lambda>x. with_nrf (updated_rf DN x) x) (HD @ WD @ CD)" .
  have "fold (\<lambda>x m. m(filename x \<mapsto> updated_rf DN x)) (HD @ WD @ CD) rf1
          = fold (\<lambda>x m. m(filename x \<mapsto> updated_rf DN x)) CD
              (fold (\<lambda>x m. m(filename x \<mapsto> updated_rf DN x)) (HD @ WD) rf1)"
    by (simp only: fold_append comp_apply append_assoc [symmetric])
  then show "rf3 = fold (\<lambda>x m. m(filename x \<mapsto> updated_rf DN x)) (HD @ WD @ CD) rf1"
    unfolding rf3' rf2' by simp
qed

lemma calculate_threshold_Inr: "calculate_threshold metrics DN = Inr T \<Longrightarrow> metrics \<noteq> []"
  by (auto simp: calculate_threshold_def split: if_splits)

lemma save_interval_results_Inr:
  assumes "save_interval_results idx s e HD' WD' CD' T = Inr res"
  shows "interval_idx res = idx"
    and "rows res = sort_key (\<lambda>r. (classification_order (classification r), filename r))
                      (map (with_result_columns T s e) (HD' @ WD' @ CD'))"
  using assms by (auto simp: save_interval_results_def Let_def split: if_splits)

lemma distinct_map_sort_key:
  "distinct (map f (sort_key k xs)) \<longleftrightarrow> distinct (map f xs)"
  by (simp add: distinct_map)

lemma run_interval_Inr:
  assumes "run_interval DN df idx (s, e) rf = Inr (res, rf')"
  shows "interval_idx res = idx"
    and "filename ` set (rows res) = log_filename ` set (read_logfile df s e)"
    and "distinct (map filename (rows res))"
    and "\<forall>r \<in> set (rows res).
            crf_i r = current_or_initial_rf rf (read_logfile df s e) (filename r)
          \<and> nrf_i r = updated_rf DN r
          \<and> erasure_coding r = (nrf_i r = 1)
          \<and> rf' (filename r) = Some (nrf_i r)
          \<and> interval_start r = s \<and> interval_end r = e
          \<and> dnc_i r = int (length (remdups (map node_id
                (filter (\<lambda>ev. log_filename ev = filename r) (read_logfile df s e)))))"
    and "\<forall>f. f \<notin> log_filename ` set (read_logfile df s e) \<longrightarrow> rf' f = rf f"
    and "read_logfile df s e \<noteq> []"
proof -
  let ?logs = "read_logfile df s e"
  let ?names = "unique (map log_filename ?logs)"
  let ?row = "\<lambda>f. metrics_row DN ?logs f (current_or_initial_rf rf ?logs f)"
  let ?rf1 = "\<lambda>f. if f \<in> log_filename ` set ?logs
                then Some (current_or_initial_rf rf ?logs f) else rf f"
  let ?k = "\<lambda>r::result_row. (classification_order (classification r), filename r)"
  from assms obtain metrics rf1 T HD WD CD HD' WD' rf2 CD' where
    pf: "process_files DN ?logs rf = Inr (metrics, rf1)" and
    th: "calculate_threshold metrics DN = Inr T" and
    cl: "classify_files metrics T = (HD, WD, CD)" and
    hw: "calculate_new_rf_for_hot_warm DN HD WD rf1 = Inr (HD', WD', rf2)" and
    cd: "process_cold_data CD rf2 = (CD', rf')" and
    sv: "save_interval_results idx s e HD' WD' CD' T = Inr res"
    by (rule run_interval_InrE) blast
  from pf have metrics: "metrics = map ?row ?names" and rf1: "rf1 = ?rf1"
    by (simp_all add: process_files_ok)
  have names: "map filename metrics = ?names"
    unfolding metrics by (simp add: o_def metrics_row_simps)
  then have dm: "distinct (map filename metrics)" by simp
  have fm: "filename ` set metrics = log_filename ` set ?logs"
  proof -
    have "filename ` set metrics = set (map filename metrics)" by simp
    also have "\<dots> = log_filename ` set ?logs" unfolding names by simp
    finally show ?thesis .
  qed
  from calculate_threshold_Inr [OF th] show ne: "?logs \<noteq> []"
    unfolding metrics by auto
  let ?all = "HD @ WD @ CD"
  note cf = classify_files_filenames [OF cl]
  have fa: "filename ` set ?all = log_filename ` set ?logs"
    using cf(1) fm by simp
  have da: "distinct (map filename ?all)"
    using cf(2) dm by simp
  note up = hot_warm_cold_update [OF hw cd cf(3) cf(4)]
  from save_interval_results_Inr(1) [OF sv] show "interval_idx res = idx" .
  from save_interval_results_Inr(2) [OF sv]
  have rows: "rows res = sort_key ?k (map (with_result_columns T s e) (HD' @ WD' @ CD'))" .
  have set_rows: "set (rows res)
      = (\<lambda>x. with_result_columns T s e (with_nrf (updated_rf DN x) x)) ` set ?all"
    unfolding rows up(1) by (simp add: image_image del: set_append map_append)
  have map_fn: "map filename (map (with_result_columns T s e) (HD' @ WD' @ CD'))
                  = map filename ?all"
    unfolding up(1) by (simp add: o_def with_result_columns_simps with_nrf_simps del: map_append)
  show "filename ` set (rows res) = log_filename ` set ?logs"
    unfolding set_rows image_image
    by (simp add: with_result_columns_simps with_nrf_simps fa [symmetric] del: set_append)
  show "distinct (map filename (rows res))"
    unfolding rows distinct_map_sort_key map_fn by (rule da)
  have rf'_in: "\<And>x. x \<in> set ?all \<Longrightarrow> rf' (filename x) = Some (updated_rf DN x)"
    unfolding up(2) by (rule fold_upd_in [OF da])
  have rf'_out: "\<And>f. f \<notin> log_filename ` set ?logs \<Longrightarrow> rf' f = rf1 f"
    unfolding up(2) fa [symmetric] by (rule fold_upd_notin)
  show "\<forall>f. f \<notin> log_filename ` set ?logs \<longrightarrow> rf' f = rf f"
    using rf'_out by (simp add: rf1)
  show "\<forall>r \<in> set (rows res).
            crf_i r = current_or_initial_rf rf ?logs (filename r)
          \<and> nrf_i r = updated_rf DN r
          \<and> erasure_coding r = (nrf_i r = 1)
          \<and> rf' (filename r) = Some (nrf_i r)
          \<and> interval_start r = s \<and> interval_end r = e
          \<and> dnc_i r = int (length (remdups (map node_id
                (filter (\<lambda>ev. log_filename ev = filename r) ?logs))))"
  proof
    fix r assume "r \<in> set (rows res)"
    then obtain x where x: "x \<in> set ?all"
      and r: "r = with_result_columns T s e (with_nrf (updated_rf DN x) x)"
      unfolding set_rows by blast
    from cf(5) x obtain m c where m: "m \<in> set metrics" and xm: "x = with_classification c m"
      by blast
    from m obtain f where mf: "m = ?row f"
      unfolding metrics by auto
    have fr: "filename r = f" "crf_i r = current_or_initial_rf rf ?logs f"
      "dnc_i r = int (length (remdups (map node_id (filter (\<lambda>ev. log_filename ev = f) ?logs))))"
      unfolding r xm mf
      by (simp_all add: with_result_columns_simps with_nrf_simps with_classification_simps
            metrics_row_simps)
    have fx: "filename x = filename r"
      unfolding r by (simp add: with_result_columns_simps with_nrf_simps)
    have n: "nrf_i r = updated_rf DN x" "updated_rf DN r = updated_rf DN x"
      "erasure_coding r = (nrf_i r = 1)" "interval_start r = s" "interval_end r = e"
      unfolding r by (simp_all add: with_result_columns_simps with_nrf_simps updated_rf_simps)
    from rf'_in [OF x] have "rf' (filename r) = Some (nrf_i r)"
      unfolding fx n(1) .
    with fr n show "crf_i r = current_or_initial_rf rf ?logs (filename r)
          \<and> nrf_i r = updated_rf DN r
          \<and> erasure_coding r = (nrf_i r = 1)
          \<and> rf' (filename r) = Some (nrf_i r)
          \<and> interval_start r = s \<and> interval_end r = e
          \<and> dnc_i r = int (length (remdups (map node_id
                (filter (\<lambda>ev. log_filename ev = filename r) ?logs))))"
      by simp
  qed
qed





subsection \<open>Windows\<close>

lemma div_le_0: "(0::int) < D \<Longrightarrow> x < D \<Longrightarrow> x div D \<le> 0"
  by (metis div_pos_pos_trivial nle_le pos_imp_zdiv_nonneg_iff)

lemma div_add_self: "(0::int) < D \<Longrightarrow> (y + D) div D = y div D + 1"
  by simp

lemma set_time_interval_loop_eq:
  "set_time_interval_loop intervals current max_time =
     intervals @ map (\<lambda>i. (current + int i * interval_duration,
                             current + (int i + 1) * interval_duration))
                   [0..<nat ((max_time - current + interval_duration - 1) div interval_duration)]"
proof (induction intervals current max_time rule: set_time_interval_loop.induct)
  case (1 intervals current max_time)
  let ?D = interval_duration
  have D: "0 < ?D" by (simp add: interval_duration_def)
  show ?case
  proof (cases "current < max_time")
    case False
    then have "max_time - current + ?D - 1 < ?D" by simp
    with D have "(max_time - current + ?D - 1) div ?D \<le> 0"
      by (rule div_le_0)
    with False show ?thesis by (subst set_time_interval_loop.simps) simp
  next
    case True
    let ?n' = "nat ((max_time - (current + ?D) + ?D - 1) div ?D)"
    have nonneg: "0 \<le> (max_time - current - 1) div ?D"
      using True D by (simp add: pos_imp_zdiv_nonneg_iff)
    have "max_time - current + ?D - 1 = (max_time - current - 1) + ?D" by simp
    also have "\<dots> div ?D = (max_time - current - 1) div ?D + 1"
      using D by (rule div_add_self)
    finally have "(max_time - current + ?D - 1) div ?D = (max_time - current - 1) div ?D + 1" .
    then have n: "nat ((max_time - current + ?D - 1) div ?D) = Suc ?n'"
      using nonneg by (simp add: nat_add_distrib algebra_simps)
    have ih: "set_time_interval_loop (intervals @ [(current, current + ?D)]) (current + ?D) max_time
                = (intervals @ [(current, current + ?D)])
                  @ map (\<lambda>i. (current + ?D + int i * ?D, current + ?D + (int i + 1) * ?D)) [0..<?n']"
      using "1.IH" [OF True refl] .
    have shift: "map (\<lambda>i. (current + ?D + int i * ?D, current + ?D + (int i + 1) * ?D)) [0..<?n']
               = map (\<lambda>i. (current + int i * ?D, current + (int i + 1) * ?D)) (map Suc [0..<?n'])"
      by (simp add: algebra_simps)
    have "set_time_interval_loop intervals current max_time
            = set_time_interval_loop (intervals @ [(current, current + ?D)]) (current + ?D) max_time"
      using True by (subst set_time_interval_loop.simps) (simp add: Let_def)
    also have "\<dots> = intervals @ map (\<lambda>i. (current + int i * ?D, current + (int i + 1) * ?D))
                                   (0 # map Suc [0..<?n'])"
      unfolding ih shift by simp
    also have "0 # map Suc [0..<?n'] = [0..<Suc ?n']"
      by (simp add: upt_conv_Cons map_Suc_upt del: upt_Suc)
    finally show ?thesis unfolding n .
  qed
qed

lemma div_interval_iff:
  assumes "(0::int) < D"
  shows "(q * D \<le> x \<and> x < (q + 1) * D) \<longleftrightarrow> x div D = q"
proof
  assume h: "q * D \<le> x \<and> x < (q + 1) * D"
  have "x = D * q + (x - q * D)" by (simp add: algebra_simps)
  moreover have "0 \<le> x - q * D" "x - q * D < D" using h by (simp_all add: algebra_simps)
  ultimately show "x div D = q" by (rule int_div_pos_eq)
next
  assume q: "x div D = q"
  have "x = D * (x div D) + x mod D" by simp
  then have x: "x = q * D + x mod D" unfolding q by (simp add: mult.commute)
  have "0 \<le> x mod D" "x mod D < D" using assms by simp_all
  with x have "q * D \<le> x" "x < q * D + D" by linarith+
  then show "q * D \<le> x \<and> x < (q + 1) * D" by (simp add: algebra_simps)
qed

lemma set_time_interval_eq:
  assumes "df \<noteq> []"
  shows "set_time_interval df =
           map (\<lambda>i. (Min (set (map timestamp df)) + int i * interval_duration,
                      Min (set (map timestamp df)) + (int i + 1) * interval_duration))
             [0..<interval_count df]"
  unfolding set_time_interval_def interval_count_def Let_def
  by (simp only: assms if_False set_time_interval_loop_eq append_Nil)

lemma interval_duration_pos: "0 < interval_duration"
  by (simp add: interval_duration_def)

lemma interval_count_int:
  assumes "df \<noteq> []"
  shows "int (interval_count df)
           = (Max (set (map timestamp df)) - Min (set (map timestamp df)) + interval_duration - 1)
               div interval_duration"
proof -
  from assms obtain x where x: "x \<in> set (map timestamp df)" by (cases df) auto
  have "Min (set (map timestamp df)) \<le> x" using x by (intro Min_le) auto
  moreover have "x \<le> Max (set (map timestamp df))" using x by (intro Max_ge) auto
  ultimately have "Min (set (map timestamp df)) \<le> Max (set (map timestamp df))" by linarith
  then have "0 \<le> Max (set (map timestamp df)) - Min (set (map timestamp df)) + interval_duration - 1"
    using interval_duration_pos by linarith
  then have "0 \<le> (Max (set (map timestamp df)) - Min (set (map timestamp df)) + interval_duration - 1)
                div interval_duration"
    using interval_duration_pos by (simp add: pos_imp_zdiv_nonneg_iff)
  then show ?thesis by (simp add: interval_count_def)
qed

lemma set_time_interval_nonempty:
  assumes ne: "df \<noteq> []" and "Min (set (map timestamp df)) < Max (set (map timestamp df))"
  shows "set_time_interval df \<noteq> []"
proof -
  let ?D = interval_duration
  from assms(2) have "?D \<le> Max (set (map timestamp df)) - Min (set (map timestamp df)) + ?D - 1"
    by simp
  then have "?D div ?D
      \<le> (Max (set (map timestamp df)) - Min (set (map timestamp df)) + ?D - 1) div ?D"
    using interval_duration_pos by (intro zdiv_mono1) simp_all
  then have "1 \<le> int (interval_count df)"
    using interval_duration_pos by (simp add: interval_count_int [OF ne])
  then show ?thesis by (simp add: set_time_interval_eq [OF ne])
qed

lemma event_before_max_covered:
  assumes e: "e \<in> set df" and lt: "timestamp e < Max (set (map timestamp df))"
  shows "\<exists>!i. i < length (set_time_interval df)
              \<and> fst (set_time_interval df ! i) \<le> timestamp e
              \<and> timestamp e < snd (set_time_interval df ! i)"
proof -
  let ?D = interval_duration
  let ?lo = "Min (set (map timestamp df))"
  let ?hi = "Max (set (map timestamp df))"
  let ?t = "timestamp e"
  let ?q = "(?t - ?lo) div ?D"
  from e have ne: "df \<noteq> []" by auto
  note D = interval_duration_pos
  have lo: "?lo \<le> ?t" using e by (intro Min_le) auto
  then have q0: "0 \<le> ?q" using D by (simp add: pos_imp_zdiv_nonneg_iff)
  have len: "length (set_time_interval df) = interval_count df"
    by (simp add: set_time_interval_eq [OF ne])
  have nth: "\<And>i. i < interval_count df \<Longrightarrow>
               set_time_interval df ! i = (?lo + int i * ?D, ?lo + (int i + 1) * ?D)"
    by (simp add: set_time_interval_eq [OF ne])
  have "?hi - ?lo + ?D - 1 = (?hi - ?lo - 1) + ?D" by simp
  also have "\<dots> div ?D = (?hi - ?lo - 1) div ?D + 1" using D by (rule div_add_self)
  finally have cnt: "int (interval_count df) = (?hi - ?lo - 1) div ?D + 1"
    by (simp add: interval_count_int [OF ne])
  from lt have "?t - ?lo \<le> ?hi - ?lo - 1" by simp
  then have "?q \<le> (?hi - ?lo - 1) div ?D" using D by (intro zdiv_mono1)
  with cnt have qn: "?q < int (interval_count df)" by simp
  have iff: "(?lo + int i * ?D \<le> ?t \<and> ?t < ?lo + (int i + 1) * ?D) \<longleftrightarrow> ?q = int i" for i
  proof -
    have "(?lo + int i * ?D \<le> ?t \<and> ?t < ?lo + (int i + 1) * ?D)
            \<longleftrightarrow> (int i * ?D \<le> ?t - ?lo \<and> ?t - ?lo < (int i + 1) * ?D)"
      by linarith
    also have "\<dots> \<longleftrightarrow> ?q = int i" using D by (rule div_interval_iff)
    finally show ?thesis .
  qed
  show ?thesis
  proof (rule ex1I [of _ "nat ?q"])
    from q0 qn have i: "nat ?q < interval_count df" by simp
    from iff [of "nat ?q"] q0 have "?lo + int (nat ?q) * ?D \<le> ?t \<and> ?t < ?lo + (int (nat ?q) + 1) * ?D"
      by simp
    with i show "nat ?q < length (set_time_interval df)
              \<and> fst (set_time_interval df ! nat ?q) \<le> ?t
              \<and> ?t < snd (set_time_interval df ! nat ?q)"
      by (simp add: len nth)
  next
    fix i assume "i < length (set_time_interval df)
              \<and> fst (set_time_interval df ! i) \<le> ?t \<and> ?t < snd (set_time_interval df ! i)"
    then have il: "i < interval_count df"
      and h: "fst (set_time_interval df ! i) \<le> ?t \<and> ?t < snd (set_time_interval df ! i)"
      by (simp_all add: len)
    from h have "?lo + int i * ?D \<le> ?t \<and> ?t < ?lo + (int i + 1) * ?D"
      unfolding nth [OF il] fst_conv snd_conv .
    with iff [of i] have "?q = int i" by simp
    then show "i = nat ?q" by simp
  qed
qed

lemma event_at_max_lost:
  assumes ne: "df \<noteq> []"
    and dvd: "interval_duration dvd Max (set (map timestamp df)) - Min (set (map timestamp df))"
    and i: "i < length (set_time_interval df)"
  shows "\<not> (fst (set_time_interval df ! i) \<le> Max (set (map timestamp df))
           \<and> Max (set (map timestamp df)) < snd (set_time_interval df ! i))"
proof
  let ?D = interval_duration
  let ?lo = "Min (set (map timestamp df))"
  let ?hi = "Max (set (map timestamp df))"
  note D = interval_duration_pos
  assume h: "fst (set_time_interval df ! i) \<le> ?hi \<and> ?hi < snd (set_time_interval df ! i)"
  from i have il: "i < interval_count df" by (simp add: set_time_interval_eq [OF ne])
  then have nth: "set_time_interval df ! i = (?lo + int i * ?D, ?lo + (int i + 1) * ?D)"
    by (simp add: set_time_interval_eq [OF ne])
  from h have "?lo + int i * ?D \<le> ?hi \<and> ?hi < ?lo + (int i + 1) * ?D"
    unfolding nth fst_conv snd_conv .
  then have "int i * ?D \<le> ?hi - ?lo \<and> ?hi - ?lo < (int i + 1) * ?D"
    by linarith
  with div_interval_iff [OF D] have q: "(?hi - ?lo) div ?D = int i" by blast
  from dvd obtain k where k: "?hi - ?lo = ?D * k" unfolding dvd_def by blast
  have "(?D * k) div ?D = k" using D by simp
  with q have ki: "k = int i" unfolding k by linarith
  have e1: "?hi - ?lo + ?D - 1 = ?D * k + (?D - 1)" unfolding k by linarith
  have "(?D * k + (?D - 1)) div ?D = k"
    by (rule int_div_pos_eq [OF refl]) (use D in simp_all)
  then have "int (interval_count df) = k"
    unfolding interval_count_int [OF ne] e1 .
  with ki il show False by simp
qed

subsection \<open>Bounds on the updated replication factor\<close>




lemma updated_rf_ge_1: "1 \<le> updated_rf DN r"
  by (simp add: updated_rf_def)

lemma current_or_initial_rf_Some:
  "rf f = Some v \<Longrightarrow> current_or_initial_rf rf logs f = v"
  by (simp add: current_or_initial_rf_def)

subsection \<open>Runs\<close>

lemma run_loop_results:
  assumes "res \<in> set (results (run_loop DN df ivs idx rf written))"
  shows "res \<in> set written
       \<or> (\<exists>idx' s e rf0 rf'. run_interval DN df idx' (s, e) rf0 = Inr (res, rf'))"
  using assms
proof (induction ivs arbitrary: idx rf written)
  case Nil
  then show ?case by simp
next
  case (Cons iv ivs)
  obtain s e where iv: "iv = (s, e)" by (cases iv)
  show ?case
  proof (cases "run_interval DN df idx (s, e) rf")
    case (Inl err)
    with Cons.prems show ?thesis by (simp add: iv)
  next
    case (Inr p)
    obtain res1 rf1 where p: "p = (res1, rf1)" by (cases p)
    from Cons.prems have "res \<in> set (results (run_loop DN df ivs (Suc idx) rf1 (written @ [res1])))"
      by (simp add: iv Inr p)
    from Cons.IH [OF this] show ?thesis
      using Inr p by auto
  qed
qed

lemma last_nrf_Nil: "last_nrf [] f = None"
  by (simp add: last_nrf_def)

lemma last_nrf_snoc_absent:
  assumes "f \<notin> filename ` set (rows res)"
  shows "last_nrf (written @ [res]) f = last_nrf written f"
proof -
  from assms have "filter (\<lambda>r. filename r = f) (rows res) = []"
    by (auto simp: filter_empty_conv)
  then show ?thesis by (simp add: last_nrf_def)
qed

lemma filter_key_singleton:
  "distinct (map key xs) \<Longrightarrow> r \<in> set xs \<Longrightarrow> filter (\<lambda>x. key x = key r) xs = [r]"
proof (induction xs)
  case Nil
  then show ?case by simp
next
  case (Cons a xs)
  show ?case
  proof (cases "r = a")
    case True
    with Cons.prems have "key a \<notin> key ` set xs" by simp
    then have "filter (\<lambda>x. key x = key a) xs = []"
      unfolding filter_empty_conv by (metis imageI)
    with True show ?thesis by simp
  next
    case False
    with Cons.prems have r: "r \<in> set xs" and d: "distinct (map key xs)"
      and "key a \<notin> key ` set xs" by auto
    then have "key a \<noteq> key r" by auto
    with Cons.IH [OF d r] show ?thesis by simp
  qed
qed

lemma last_nrf_snoc_present:
  assumes "distinct (map filename (rows res))" and "r \<in> set (rows res)"
  shows "last_nrf (written @ [res]) (filename r) = Some (nrf_i r)"
proof -
  let ?old = "filter (\<lambda>x. filename x = filename r) (concat (map rows written))"
  have "filter (\<lambda>x. filename x = filename r) (concat (map rows (written @ [res]))) = ?old @ [r]"
    by (simp add: filter_key_singleton [OF assms])
  then show ?thesis
    by (cases ?old) (simp_all add: last_nrf_def)
qed

lemma last_nrf_step:
  assumes ri: "run_interval DN df idx (s, e) rf = Inr (res, rf')"
    and inv: "\<forall>f. rf f = last_nrf written f"
  shows "\<forall>f. rf' f = last_nrf (written @ [res]) f"
proof
  fix f
  note m = run_interval_Inr [OF ri]
  show "rf' f = last_nrf (written @ [res]) f"
  proof (cases "f \<in> filename ` set (rows res)")
    case True
    then obtain r where r: "r \<in> set (rows res)" and f: "f = filename r" by auto
    from m(4) r have "rf' (filename r) = Some (nrf_i r)" by blast
    with last_nrf_snoc_present [OF m(3) r, of written] f show ?thesis by simp
  next
    case False
    with m(2) have "f \<notin> log_filename ` set (read_logfile df s e)" by simp
    with m(5) have "rf' f = rf f" by blast
    with inv last_nrf_snoc_absent [OF False, of written] show ?thesis by simp
  qed
qed

lemma run_loop_prefix:
  "\<exists>more. results (run_loop DN df ivs idx rf written) = written @ more"
proof (induction ivs arbitrary: idx rf written)
  case Nil
  then show ?case by simp
next
  case (Cons iv ivs)
  show ?case
  proof (cases "run_interval DN df idx iv rf")
    case (Inl err)
    then show ?thesis by simp
  next
    case (Inr p)
    obtain res1 rf1 where p: "p = (res1, rf1)" by (cases p)
    from Cons.IH [of "Suc idx" rf1 "written @ [res1]"]
    show ?thesis by (auto simp: Inr p)
  qed
qed

lemma run_loop_trace:
  assumes "length written \<le> k"
    and "k < length (results (run_loop DN df ivs idx rf written))"
    and "\<forall>f. rf f = last_nrf written f"
  shows "k - length written < length ivs
       \<and> (\<exists>rf_k rf_k'.
             run_interval DN df (idx + (k - length written)) (ivs ! (k - length written)) rf_k
               = Inr (results (run_loop DN df ivs idx rf written) ! k, rf_k')
           \<and> (\<forall>f. rf_k f = last_nrf (take k (results (run_loop DN df ivs idx rf written))) f))"
  using assms
proof (induction ivs arbitrary: idx rf written)
  case Nil
  then show ?case by simp
next
  case (Cons iv ivs)
  obtain s e where iv: "iv = (s, e)" by (cases iv)
  show ?case
  proof (cases "run_interval DN df idx (s, e) rf")
    case (Inl err)
    then have "results (run_loop DN df (iv # ivs) idx rf written) = written"
      by (simp add: iv)
    with Cons.prems(1,2) show ?thesis by simp
  next
    case (Inr p)
    obtain res1 rf1 where p: "p = (res1, rf1)" by (cases p)
    let ?w = "written @ [res1]"
    let ?R = "results (run_loop DN df ivs (Suc idx) rf1 ?w)"
    have eq: "results (run_loop DN df (iv # ivs) idx rf written) = ?R"
      by (simp add: iv Inr p)
    obtain more where more: "?R = ?w @ more"
      using run_loop_prefix [of DN df ivs "Suc idx" rf1 ?w] by blast
    from Inr p have ri: "run_interval DN df idx (s, e) rf = Inr (res1, rf1)" by simp
    show ?thesis
    proof (cases "k = length written")
      case True
      have n: "?R ! k = res1" unfolding more True by (simp add: nth_append)
      have tk: "take k ?R = written" unfolding more True by simp
      have 1: "k - length written < length (iv # ivs)" using True by simp
      have 2: "run_interval DN df (idx + (k - length written))
                 ((iv # ivs) ! (k - length written)) rf
               = Inr (results (run_loop DN df (iv # ivs) idx rf written) ! k, rf1)"
        unfolding eq n using ri True by (simp add: iv)
      have 3: "\<forall>f. rf f = last_nrf (take k (results (run_loop DN df (iv # ivs) idx rf written))) f"
        unfolding eq tk by (rule Cons.prems(3))
      from 1 2 3 show ?thesis by blast
    next
      case False
      with Cons.prems(1) have lk: "length ?w \<le> k" by simp
      from Cons.prems(2) have kl: "k < length ?R" unfolding eq .
      from last_nrf_step [OF ri Cons.prems(3)] have inv: "\<forall>f. rf1 f = last_nrf ?w f" .
      from Cons.IH [OF lk kl inv]
      have ih: "k - length ?w < length ivs"
        "\<exists>rf_k rf_k'. run_interval DN df (Suc idx + (k - length ?w)) (ivs ! (k - length ?w)) rf_k
                         = Inr (?R ! k, rf_k')
                     \<and> (\<forall>f. rf_k f = last_nrf (take k ?R) f)"
        by blast+
      from lk have a: "k - length written = Suc (k - length ?w)" by simp
      have b: "idx + (k - length written) = Suc idx + (k - length ?w)"
        unfolding a by simp
      have c: "(iv # ivs) ! (k - length written) = ivs ! (k - length ?w)"
        unfolding a by simp
      from ih(1) have d: "k - length written < length (iv # ivs)"
        unfolding a by simp
      from d ih(2) show ?thesis
        unfolding eq b c by blast
    qed
  qed
qed

lemma last_nrf_recent:
  assumes "j < k" and "k \<le> length outs" and "r' \<in> set (rows (outs ! j))"
    and "distinct (map filename (rows (outs ! j)))"
    and "\<forall>i. j < i \<and> i < k \<longrightarrow> filename r' \<notin> filename ` set (rows (outs ! i))"
  shows "last_nrf (take k outs) (filename r') = Some (nrf_i r')"
  using assms(1,2,5)
proof (induction k)
  case 0
  then show ?case by simp
next
  case (Suc k)
  from Suc.prems(2) have t: "take (Suc k) outs = take k outs @ [outs ! k]"
    by (simp add: take_Suc_conv_app_nth)
  show ?case
  proof (cases "j = k")
    case True
    show ?thesis
      unfolding t using last_nrf_snoc_present [OF assms(4) assms(3)] True by simp
  next
    case False
    with Suc.prems(1) have jk: "j < k" by simp
    from Suc.prems(3) jk have ab: "filename r' \<notin> filename ` set (rows (outs ! k))" by simp
    from Suc.prems have "last_nrf (take k outs) (filename r') = Some (nrf_i r')"
      by (intro Suc.IH jk) auto
    then show ?thesis
      unfolding t by (simp add: last_nrf_snoc_absent [OF ab])
  qed
qed

lemma last_nrf_never:
  assumes "k \<le> length outs" and "\<forall>j<k. f \<notin> filename ` set (rows (outs ! j))"
  shows "last_nrf (take k outs) f = None"
  using assms
proof (induction k)
  case 0
  then show ?case by (simp add: last_nrf_Nil)
next
  case (Suc k)
  from Suc.prems(1) have t: "take (Suc k) outs = take k outs @ [outs ! k]"
    by (simp add: take_Suc_conv_app_nth)
  from Suc.prems(2) have ab: "f \<notin> filename ` set (rows (outs ! k))" by simp
  from Suc.prems have "last_nrf (take k outs) f = None"
    by (intro Suc.IH) auto
  then show ?case
    unfolding t by (simp add: last_nrf_snoc_absent [OF ab])
qed

lemma run_trace:
  assumes "j < length (results (run DN df))"
  shows "j < length (set_time_interval df)
       \<and> (\<exists>rf_j rf_j'.
             run_interval DN df (1 + j)
                 (fst (set_time_interval df ! j), snd (set_time_interval df ! j)) rf_j
               = Inr (results (run DN df) ! j, rf_j')
           \<and> (\<forall>f. rf_j f = last_nrf (take j (results (run DN df))) f))"
proof -
  have inv: "\<forall>f. Map.empty f = last_nrf [] f" by (simp add: last_nrf_Nil)
  from assms have "j < length (results (run_loop DN df (set_time_interval df) 1 Map.empty []))"
    by (simp add: run_def)
  from run_loop_trace [OF _ this inv] show ?thesis
    by (simp add: run_def)
qed

section \<open>Popularity degree\<close>

text \<open>
  Claim C8, as amended. The popularity degree never fails, whatever the replication
  factor, and for every replication factor that is not negative (0 included) it is
  \<open>(ac_i * dnc_i * w_i) / max(crf_i, 1)\<close>: a zero replication factor is treated as 1.
\<close>

theorem popularity_degree_zero_guard:
  "(\<exists>pd. calculate_popularity_degree ac dnc w crf = Inr pd)
   \<and> (0 \<le> crf \<longrightarrow>
        calculate_popularity_degree ac dnc w crf
          = Inr (of_int (ac * dnc * w) / of_int (max crf 1)))"
  by (auto simp: calculate_popularity_degree_def py_truediv_def Let_def max_def)

theorem popularity_degree_zero_guard_witness:
  "(0::int) \<le> 0 \<and> calculate_popularity_degree 50 9 4 0 = Inr 1800
   \<and> (0::int) \<le> 3 \<and> calculate_popularity_degree 50 9 4 3 = Inr 600"
  using popularity_degree_zero_guard [of 50 9 4 0] popularity_degree_zero_guard [of 50 9 4 3]
  by simp

text \<open>
  Claim C8 as stated fails for a negative replication factor: the guard replaces only
  the value 0, so the division is by \<open>crf_i\<close> itself and not by \<open>max(crf_i, 1)\<close>.
\<close>

theorem popularity_degree_negative_rf_counterexample:
  "calculate_popularity_degree 1 1 1 (- 2) \<noteq> Inr (of_int (1 * 1 * 1) / of_int (max (- 2) 1))"
  by (simp add: calculate_popularity_degree_def py_truediv_def)

section \<open>New replication factor of hot and warm files\<close>

text \<open>
  Claim C5, as amended. With a node count other than 0, every row of \<open>HD\<close> and \<open>WD\<close> gets
  \<open>nrf_i = max(1, round((crf_i * dnc_i) / DN_count))\<close> where \<open>round\<close> resolves an exact tie
  to the even neighbour, and this value is the file's entry in the replication state
  afterwards (the rows of one interval have distinct file names).
\<close>

theorem hot_warm_nrf_round_half_even:
  assumes "DN_count \<noteq> 0" and "distinct (map filename (HD @ WD))"
  shows "\<exists>HD' WD' rf'.
           calculate_new_rf_for_hot_warm DN_count HD WD rf = Inr (HD', WD', rf')
         \<and> HD' = map (\<lambda>r. with_nrf (max 1 (py_round (of_int (crf_i r * dnc_i r) / of_int DN_count))) r) HD
         \<and> WD' = map (\<lambda>r. with_nrf (max 1 (py_round (of_int (crf_i r * dnc_i r) / of_int DN_count))) r) WD
         \<and> (\<forall>r \<in> set (HD @ WD).
               rf' (filename r) = Some (max 1 (py_round (of_int (crf_i r * dnc_i r) / of_int DN_count))))"
proof -
  let ?n = "\<lambda>r::classified_file. max 1 (py_round (of_int (crf_i r * dnc_i r) / of_int DN_count))"
  let ?rf' = "fold (\<lambda>r m. m(filename r \<mapsto> ?n r)) (HD @ WD) rf"
  have loop: "calculate_new_rf_loop DN_count (HD @ WD) [] rf
                = Inr ([] @ map (\<lambda>r. with_nrf (?n r) r) (HD @ WD), ?rf')"
    using assms(1) by (rule calculate_new_rf_loop_ok)
  have res: "calculate_new_rf_for_hot_warm DN_count HD WD rf
               = Inr (map (\<lambda>r. with_nrf (?n r) r) HD, map (\<lambda>r. with_nrf (?n r) r) WD, ?rf')"
    unfolding calculate_new_rf_for_hot_warm_def loop by simp
  have "\<forall>r \<in> set (HD @ WD). ?rf' (filename r) = Some (?n r)"
    using fold_upd_in [OF assms(2), where val = ?n and m = rf] by blast
  with res show ?thesis by blast
qed

theorem hot_warm_nrf_round_half_even_witness:
  "(10::int) \<noteq> 0
   \<and> distinct (map filename ([with_classification HOT
         \<lparr>filename = ''F'', ac_i = 5, dnc_i = 5, crf_i = 5, w_i = 3, PD_i = 15\<rparr>] @ []))
   \<and> (\<exists>HD' WD' rf'.
         calculate_new_rf_for_hot_warm 10
           [with_classification HOT
              \<lparr>filename = ''F'', ac_i = 5, dnc_i = 5, crf_i = 5, w_i = 3, PD_i = 15\<rparr>] [] Map.empty
           = Inr (HD', WD', rf')
         \<and> map nrf_i HD' = [2] \<and> WD' = [] \<and> rf' ''F'' = Some 2)"
proof -
  let ?r = "with_classification HOT
              \<lparr>filename = ''F'', ac_i = 5, dnc_i = 5, crf_i = 5, w_i = 3, PD_i = 15\<rparr>"
  have d: "distinct (map filename ([?r] @ []))" by simp
  have n': "max 1 (py_round (5 / 2)) = 2"
    by code_simp
  from hot_warm_nrf_round_half_even [of 10 "[?r]" "[]" Map.empty, OF _ d]
  show ?thesis
    by (auto simp: with_classification_simps with_nrf_simps n')
qed

text \<open>
  Claim C5 as stated fails on a tie: a file with \<open>crf_i = 5\<close> read by 5 of 10 nodes is
  HOT and gets \<open>round(2.5) = 2\<close>, where round-half-up gives 3.
\<close>

theorem hot_warm_nrf_round_half_up_counterexample:
  "results (run 10 tie_log) =
     [\<lparr>interval_idx = 1,
       rows = [\<lparr>filename = ''F'', ac_i = 5, dnc_i = 5, crf_i = 5, w_i = 3, PD_i = 15,
                classification = HOT, nrf_i = 2, erasure_coding = False,
                threshold = Finite (3 / 2), interval_start = 0,
                interval_end = 3600000000000\<rparr>]\<rparr>]
   \<and> max 1 (round_half_up (of_int (5 * 5) / of_int 10)) = 3"
  by code_simp

section \<open>Classification\<close>

text \<open>
  Claim C7. For rows whose weight is one of 1, 2, 3, 4 and a threshold that is a number
  (finite or infinite), the classifier returns as \<open>HD\<close> the rows with \<open>PD_i \<ge> T\<close> and weight
  3 or 4, as \<open>WD\<close> the rows with \<open>PD_i \<ge> T\<close> and weight 1 or 2 or with \<open>PD_i < T\<close> and weight 3
  or 4, and as \<open>CD\<close> the rows with \<open>PD_i < T\<close> and weight 1 or 2, each tagged with its class;
  the three lists are pairwise disjoint and their lengths add up to the number of rows.
\<close>

theorem classify_files_partition:
  assumes "T \<noteq> NaN" and "\<forall>r \<in> set metrics. w_i r \<in> {1, 2, 3, 4}"
  shows "\<exists>HD WD CD.
           classify_files metrics T = (HD, WD, CD)
         \<and> HD = map (with_classification HOT)
                  (filter (\<lambda>r. float_ge (PD_i r) T \<and> w_i r \<in> {3, 4}) metrics)
         \<and> WD = map (with_classification WARM)
                  (filter (\<lambda>r. float_ge (PD_i r) T \<and> w_i r \<in> {1, 2}
                             \<or> float_lt (PD_i r) T \<and> w_i r \<in> {3, 4}) metrics)
         \<and> CD = map (with_classification COLD)
                  (filter (\<lambda>r. float_lt (PD_i r) T \<and> w_i r \<in> {1, 2}) metrics)
         \<and> length HD + length WD + length CD = length metrics
         \<and> set HD \<inter> set WD = {} \<and> set HD \<inter> set CD = {} \<and> set WD \<inter> set CD = {}"
proof -
  let ?hot = "\<lambda>r::file_metrics. float_ge (PD_i r) T \<and> w_i r \<in> {3, 4}"
  let ?warm = "\<lambda>r::file_metrics. float_ge (PD_i r) T \<and> w_i r \<in> {1, 2}
                 \<or> float_lt (PD_i r) T \<and> w_i r \<in> {3, 4}"
  let ?cold = "\<lambda>r::file_metrics. float_lt (PD_i r) T \<and> w_i r \<in> {1, 2}"
  let ?HD = "map (with_classification HOT) (filter ?hot metrics)"
  let ?WD = "map (with_classification WARM) (filter ?warm metrics)"
  let ?CD = "map (with_classification COLD) (filter ?cold metrics)"
  have lt: "\<And>x. float_lt x T \<longleftrightarrow> \<not> float_ge x T"
    using assms(1) by (rule float_lt_iff)
  have w: "\<And>r. r \<in> set metrics \<Longrightarrow> w_i r = 1 \<or> w_i r = 2 \<or> w_i r = 3 \<or> w_i r = 4"
    using assms(2) by auto
  have fw: "filter (\<lambda>r. \<not> (float_ge (PD_i r) T \<and> w_i r \<in> {3, 4})
                        \<and> (float_ge (PD_i r) T \<and> w_i r \<in> {1, 2}
                           \<or> float_lt (PD_i r) T \<and> w_i r \<in> {3, 4})) metrics
            = filter ?warm metrics"
    by (rule filter_cong) (auto simp: lt)
  have fc: "filter (\<lambda>r. \<not> (float_ge (PD_i r) T \<and> w_i r \<in> {3, 4})
                        \<and> \<not> (float_ge (PD_i r) T \<and> w_i r \<in> {1, 2})
                        \<and> \<not> (float_lt (PD_i r) T \<and> w_i r \<in> {3, 4})) metrics
            = filter ?cold metrics"
    by (rule filter_cong) (use w in \<open>auto simp: lt\<close>)
  have eq: "classify_files metrics T = (?HD, ?WD, ?CD)"
    unfolding classify_files_def classify_files_loop_eq fw fc by simp
  have len: "length ?HD + length ?WD + length ?CD = length metrics"
    unfolding length_map
    by (rule length_filter3) (use w in \<open>auto simp: lt\<close>)
  have d1: "set ?HD \<inter> set ?WD = {}"
    by (auto simp: with_classification_def file_metrics.defs classified_file.defs)
  have d2: "set ?HD \<inter> set ?CD = {}"
    by (auto simp: with_classification_def file_metrics.defs classified_file.defs)
  have d3: "set ?WD \<inter> set ?CD = {}"
    by (auto simp: with_classification_def file_metrics.defs classified_file.defs)
  from eq len d1 d2 d3 show ?thesis by blast
qed

theorem classify_files_partition_witness:
  "Finite 40 \<noteq> NaN \<and> w_i row_F \<in> {1, 2, 3, 4} \<and> w_i row_G \<in> {1, 2, 3, 4}
   \<and> classify_files [row_F, row_G] (Finite 40)
       = ([with_classification HOT row_F], [], [with_classification COLD row_G])"
proof -
  have w: "\<forall>r \<in> set [row_F, row_G]. w_i r \<in> {1, 2, 3, 4}"
    by (simp add: row_F_def row_G_def)
  from classify_files_partition [of "Finite 40" "[row_F, row_G]", OF _ w]
  show ?thesis
    by (auto simp: row_F_def row_G_def)
qed

section \<open>Intervals without events\<close>




section \<open>Node count\<close>




section \<open>Replication-factor recurrence\<close>

text \<open>
  Claim C1. In a run, the \<open>k\<close>-th result belongs to the \<open>k\<close>-th interval and has a row for
  exactly the files read in that window. For a row \<open>r\<close> of the \<open>k\<close>-th result: if \<open>j < k\<close> is
  the most recent earlier interval with a row \<open>r'\<close> for the same file (no interval strictly
  between \<open>j\<close> and \<open>k\<close> has one), then \<open>crf_i r = nrf_i r'\<close>; if no earlier interval has a row
  for the file, \<open>crf_i r\<close> is the \<open>current_replication_factor\<close> of the file's first row in the
  \<open>k\<close>-th window. Processing an interval leaves the stored replication factor of every
  file without a read in that window unchanged.
\<close>

theorem replication_factor_recurrence:
  assumes k: "k < length (results (run DN df))"
    and r: "r \<in> set (rows (results (run DN df) ! k))"
  shows "k < length (set_time_interval df)
       \<and> (\<forall>j \<le> k. filename ` set (rows (results (run DN df) ! j))
                     = log_filename ` set (read_logfile df (fst (set_time_interval df ! j))
                                              (snd (set_time_interval df ! j))))
       \<and> (\<forall>j r'. j < k \<and> r' \<in> set (rows (results (run DN df) ! j))
                  \<and> filename r' = filename r
                  \<and> (\<forall>i. j < i \<and> i < k \<longrightarrow>
                         filename r \<notin> filename ` set (rows (results (run DN df) ! i)))
                  \<longrightarrow> crf_i r = nrf_i r')
       \<and> ((\<forall>j < k. filename r \<notin> filename ` set (rows (results (run DN df) ! j))) \<longrightarrow>
            crf_i r = initial_rf (read_logfile df (fst (set_time_interval df ! k))
                                     (snd (set_time_interval df ! k))) (filename r))
       \<and> (\<forall>idx s e rf res rf' f.
             run_interval DN df idx (s, e) rf = Inr (res, rf')
             \<and> f \<notin> log_filename ` set (read_logfile df s e) \<longrightarrow> rf' f = rf f)"
proof -
  let ?outs = "results (run DN df)"
  let ?ivs = "set_time_interval df"
  let ?logs = "\<lambda>j. read_logfile df (fst (?ivs ! j)) (snd (?ivs ! j))"
  from run_trace [OF k] obtain rf_k rf_k' where
    kl: "k < length ?ivs" and
    rk: "run_interval DN df (1 + k) (fst (?ivs ! k), snd (?ivs ! k)) rf_k = Inr (?outs ! k, rf_k')" and
    ik: "\<forall>f. rf_k f = last_nrf (take k ?outs) f"
    by blast
  note mk = run_interval_Inr [OF rk]
  from mk(4) r have crf: "crf_i r = current_or_initial_rf rf_k (?logs k) (filename r)"
    by blast
  have names: "\<forall>j \<le> k. filename ` set (rows (?outs ! j)) = log_filename ` set (?logs j)"
  proof (intro allI impI)
    fix j assume "j \<le> k"
    with k have "j < length ?outs" by simp
    from run_trace [OF this] obtain rf_j rf_j' where
      "run_interval DN df (1 + j) (fst (?ivs ! j), snd (?ivs ! j)) rf_j = Inr (?outs ! j, rf_j')"
      by blast
    from run_interval_Inr(2) [OF this]
    show "filename ` set (rows (?outs ! j)) = log_filename ` set (?logs j)" .
  qed
  have recent: "crf_i r = nrf_i r'"
    if h: "j < k \<and> r' \<in> set (rows (?outs ! j)) \<and> filename r' = filename r
           \<and> (\<forall>i. j < i \<and> i < k \<longrightarrow> filename r \<notin> filename ` set (rows (?outs ! i)))" for j r'
  proof -
    from h k have "j < length ?outs" by simp
    from run_trace [OF this] obtain rf_j rf_j' where
      "run_interval DN df (1 + j) (fst (?ivs ! j), snd (?ivs ! j)) rf_j = Inr (?outs ! j, rf_j')"
      by blast
    from run_interval_Inr(3) [OF this] have d: "distinct (map filename (rows (?outs ! j)))" .
    from h have jk: "j < k" and r': "r' \<in> set (rows (?outs ! j))"
      and fn: "filename r' = filename r"
      and gap: "\<forall>i. j < i \<and> i < k \<longrightarrow> filename r' \<notin> filename ` set (rows (?outs ! i))"
      by simp_all
    from k have "k \<le> length ?outs" by simp
    from last_nrf_recent [OF jk this r' d gap]
    have "last_nrf (take k ?outs) (filename r) = Some (nrf_i r')" unfolding fn .
    with ik have "rf_k (filename r) = Some (nrf_i r')" by simp
    with crf show ?thesis by (simp add: current_or_initial_rf_Some)
  qed
  have first: "crf_i r = initial_rf (?logs k) (filename r)"
    if h: "\<forall>j < k. filename r \<notin> filename ` set (rows (?outs ! j))"
  proof -
    from k have "k \<le> length ?outs" by simp
    from last_nrf_never [OF this h] ik have "rf_k (filename r) = None" by simp
    with crf show ?thesis by (simp add: current_or_initial_rf_def)
  qed
  have frame: "\<forall>idx s e rf res rf' f.
             run_interval DN df idx (s, e) rf = Inr (res, rf')
             \<and> f \<notin> log_filename ` set (read_logfile df s e) \<longrightarrow> rf' f = rf f"
    using run_interval_Inr(5) by blast
  from kl names recent first frame show ?thesis by blast
qed

theorem replication_factor_recurrence_witness:
  "2 < length (results (run 10 history_log))
   \<and> hd (rows (results (run 10 history_log) ! 2)) \<in> set (rows (results (run 10 history_log) ! 2))
   \<and> hd (rows (results (run 10 history_log) ! 0)) \<in> set (rows (results (run 10 history_log) ! 0))
   \<and> filename (hd (rows (results (run 10 history_log) ! 0)))
       = filename (hd (rows (results (run 10 history_log) ! 2)))
   \<and> filename (hd (rows (results (run 10 history_log) ! 2)))
       \<notin> filename ` set (rows (results (run 10 history_log) ! 1))
   \<and> nrf_i (hd (rows (results (run 10 history_log) ! 0))) = 3
   \<and> crf_i (hd (rows (results (run 10 history_log) ! 2))) = 3"
proof -
  let ?outs = "results (run 10 history_log)"
  let ?r = "hd (rows (?outs ! 2))"
  let ?r' = "hd (rows (?outs ! 0))"
  have k: "2 < length ?outs" by code_simp
  have r: "?r \<in> set (rows (?outs ! 2))" by code_simp
  have r': "?r' \<in> set (rows (?outs ! 0))" by code_simp
  have fn: "filename ?r' = filename ?r" by code_simp
  have ab: "filename ?r \<notin> filename ` set (rows (?outs ! 1))" by code_simp
  have n: "nrf_i ?r' = 3" by code_simp
  have gap: "\<forall>i. 0 < i \<and> i < 2 \<longrightarrow> filename ?r \<notin> filename ` set (rows (?outs ! i))"
  proof (intro allI impI)
    fix i :: nat assume "0 < i \<and> i < 2"
    then have "i = 1" by simp
    with ab show "filename ?r \<notin> filename ` set (rows (?outs ! i))" by simp
  qed
  have j: "(0::nat) < 2" by simp
  from replication_factor_recurrence [OF k r] j r' fn gap have "crf_i ?r = nrf_i ?r'" by blast
  with k r r' fn ab n show ?thesis by simp
qed

section \<open>Window partitioning\<close>

text \<open>
  Claim C2 fails on the code where the minimum and the maximum timestamp coincide: the
  loop condition \<^verbatim>\<open>current < max_time\<close> is false at once, so a log with a single timestamp
  gets no interval instead of exactly one, and the run writes no result. (For
  \<open>min_time < max_time\<close> the intervals are the contiguous \<open>[min_time + i*D, min_time + (i+1)*D)\<close>,
  at least one: \<open>set_time_interval_eq\<close>, \<open>set_time_interval_nonempty\<close>.)
\<close>

theorem single_timestamp_log_no_interval:
  "Min (set (map timestamp single_event_log)) = Max (set (map timestamp single_event_log))
   \<and> set_time_interval single_event_log = []
   \<and> run 10 single_event_log = \<lparr>results = [], status = None\<rparr>"
  by code_simp

text \<open>
  Claim C3 fails on the code where the span of the log is a whole number of hours: the
  last interval ends at the maximum timestamp and is half-open, so the reads at the
  maximum timestamp are in no interval. (Every read before the maximum is in exactly one
  interval: \<open>event_before_max_covered\<close>; the loss is \<open>event_at_max_lost\<close>.)
\<close>

theorem boundary_event_lost:
  "map timestamp boundary_log = [0, 3600000000000]
   \<and> set_time_interval boundary_log = [(0, 3600000000000)]
   \<and> map timestamp (read_logfile boundary_log 0 3600000000000) = [0]
   \<and> map filename (concat (map rows (results (run 10 boundary_log)))) = [''A'']"
  by code_simp

section \<open>Erasure-coding flag\<close>

text \<open>
  Claim C9. In every interval result of a run, every row has \<open>erasure_coding\<close> true exactly
  when its \<open>nrf_i\<close> is 1, and every COLD row has \<open>nrf_i = 1\<close> and \<open>erasure_coding\<close> true.
\<close>

theorem erasure_flag_iff_nrf_one:
  "\<forall>res \<in> set (results (run DN df)). \<forall>r \<in> set (rows res).
     (erasure_coding r \<longleftrightarrow> nrf_i r = 1)
   \<and> (classification r = COLD \<longrightarrow> nrf_i r = 1 \<and> erasure_coding r)"
proof (intro ballI)
  fix res r assume res: "res \<in> set (results (run DN df))" and r: "r \<in> set (rows res)"
  from run_loop_results [OF res [unfolded run_def]]
  obtain idx' s e rf0 rf' where "run_interval DN df idx' (s, e) rf0 = Inr (res, rf')"
    by auto
  from run_interval_Inr(4) [OF this] r
  have "erasure_coding r = (nrf_i r = 1)" "nrf_i r = updated_rf DN r" by blast+
  then show "(erasure_coding r \<longleftrightarrow> nrf_i r = 1)
   \<and> (classification r = COLD \<longrightarrow> nrf_i r = 1 \<and> erasure_coding r)"
    by (simp add: updated_rf_def)
qed

theorem erasure_flag_iff_nrf_one_witness:
  "hd (results (run 10 history_log)) \<in> set (results (run 10 history_log))
   \<and> last (rows (hd (results (run 10 history_log))))
        \<in> set (rows (hd (results (run 10 history_log))))
   \<and> classification (last (rows (hd (results (run 10 history_log))))) = COLD
   \<and> nrf_i (last (rows (hd (results (run 10 history_log))))) = 1
   \<and> erasure_coding (last (rows (hd (results (run 10 history_log)))))"
proof -
  let ?res = "hd (results (run 10 history_log))"
  let ?r = "last (rows ?res)"
  have m1: "?res \<in> set (results (run 10 history_log))" by code_simp
  have m2: "?r \<in> set (rows ?res)" by code_simp
  have c: "classification ?r = COLD" by code_simp
  from erasure_flag_iff_nrf_one [of 10 history_log] m1 m2 c
  have "nrf_i ?r = 1 \<and> erasure_coding ?r" by blast
  with m1 m2 c show ?thesis by blast
qed

section \<open>The replication factor never increases\<close>



end
